theory Spec2Isabelle
  imports Complex_Main "HOL-Library.Word"
begin

section \<open>JavaScript strings\<close>

text \<open>
  A JavaScript string is a sequence of 16-bit UTF-16 code units: \<open>text.length\<close> counts
  code units, \<open>charAt\<close>, \<open>slice\<close> and \<open>split\<close> cut between code units.  A string
  literal of \<open>index.js\<close> whose characters are all ASCII is written \<open>js ''...''\<close>.
\<close>

type_synonym code_unit = "16 word"
type_synonym jsstring = "code_unit list"

definition js :: "string \<Rightarrow> jsstring" where
  "js s = map (\<lambda>c. of_nat (of_char c)) s"

text \<open>The character class \<open>[a-zA-Z]\<close> of the regular expression in \<open>validateText\<close>.\<close>

definition is_ascii_letter :: "code_unit \<Rightarrow> bool" where
  "is_ascii_letter u = ((0x41 \<le> u \<and> u \<le> 0x5A) \<or> (0x61 \<le> u \<and> u \<le> 0x7A))"


text \<open>
  The class \<open>\s\<close> of ECMAScript regular expressions: WhiteSpace (TAB, VT, FF, the
  space separators, U+FEFF) and LineTerminator (LF, CR, U+2028, U+2029).
\<close>

definition is_whitespace :: "code_unit \<Rightarrow> bool" where
  "is_whitespace u =
     (u = 0x09 \<or> u = 0x0A \<or> u = 0x0B \<or> u = 0x0C \<or> u = 0x0D \<or> u = 0x20 \<or> u = 0xA0
      \<or> u = 0x1680 \<or> (0x2000 \<le> u \<and> u \<le> 0x200A) \<or> u = 0x2028 \<or> u = 0x2029
      \<or> u = 0x202F \<or> u = 0x205F \<or> u = 0x3000 \<or> u = 0xFEFF)"

text \<open>
  \<open>text.split(sep)\<close> for a separator string of one code unit (\<open>'\n'\<close>, \<open>' '\<close>): the
  scan keeps the piece read so far; every separator closes a piece, the end of the
  text closes the last one.  The empty text gives one empty piece.
\<close>

fun split_scan :: "code_unit \<Rightarrow> jsstring \<Rightarrow> jsstring \<Rightarrow> jsstring list" where
  "split_scan sep piece [] = [piece]"
| "split_scan sep piece (u # us) =
     (if u = sep then piece # split_scan sep [] us else split_scan sep (piece @ [u]) us)"

definition split_on :: "code_unit \<Rightarrow> jsstring \<Rightarrow> jsstring list" where
  "split_on sep text = split_scan sep [] text"

text \<open>
  \<open>text.split(/\s+/)\<close>: a separator is a maximal run of whitespace.  The flag says that
  the scan is inside such a run, where further whitespace closes nothing.  Whitespace
  at the start or the end of the text leaves an empty piece there, and the empty text
  gives one empty piece (the pattern does not match the empty string).
\<close>

fun split_ws_scan :: "jsstring \<Rightarrow> bool \<Rightarrow> jsstring \<Rightarrow> jsstring list" where
  "split_ws_scan piece in_run [] = [piece]"
| "split_ws_scan piece in_run (u # us) =
     (if is_whitespace u
      then (if in_run then split_ws_scan [] True us else piece # split_ws_scan [] True us)
      else split_ws_scan (piece @ [u]) False us)"

definition split_ws :: "jsstring \<Rightarrow> jsstring list" where
  "split_ws text = split_ws_scan [] False text"

text \<open>\<open>text.split('')\<close>: one string per code unit; none for the empty text.\<close>

definition split_units :: "jsstring \<Rightarrow> jsstring list" where
  "split_units text = map (\<lambda>u. [u]) text"

text \<open>\<open>Array.prototype.join\<close>.\<close>

fun join :: "jsstring \<Rightarrow> jsstring list \<Rightarrow> jsstring" where
  "join sep [] = []"
| "join sep [x] = x"
| "join sep (x # y # ys) = x @ sep @ join sep (y # ys)"

text \<open>\<open>word.charAt(0)\<close> is the first code unit as a string, or the empty string.\<close>

definition charAt0 :: "jsstring \<Rightarrow> jsstring" where
  "charAt0 word = (case word of [] \<Rightarrow> [] | u # _ \<Rightarrow> [u])"

definition slice1 :: "jsstring \<Rightarrow> jsstring" where
  "slice1 word = drop 1 word"

subsection \<open>Case mapping\<close>

text \<open>
  \<open>String.prototype.toLowerCase\<close> and \<open>toUpperCase\<close> are built-ins of the JavaScript
  engine, driven by the Unicode character database.  They are parameters of the model:
  every function that calls them takes the pair as its first argument.
\<close>

record engine =
  toLowerCase :: "jsstring \<Rightarrow> jsstring"
  toUpperCase :: "jsstring \<Rightarrow> jsstring"

text \<open>
  What the theorems below assume of the built-ins, each where it is needed: on a string
  of ASCII code units they map the Basic Latin letters and nothing else, one code unit
  to one; and lower-casing a lower-cased string changes nothing.
\<close>

definition lower_unit :: "code_unit \<Rightarrow> code_unit" where
  "lower_unit u = (if 0x41 \<le> u \<and> u \<le> 0x5A then u + 0x20 else u)"

definition upper_unit :: "code_unit \<Rightarrow> code_unit" where
  "upper_unit u = (if 0x61 \<le> u \<and> u \<le> 0x7A then u - 0x20 else u)"

definition is_ascii :: "jsstring \<Rightarrow> bool" where
  "is_ascii s = list_all (\<lambda>u. u < 0x80) s"

definition ascii_case :: "engine \<Rightarrow> bool" where
  "ascii_case E = (\<forall>s. is_ascii s \<longrightarrow>
      toLowerCase E s = map lower_unit s \<and> toUpperCase E s = map upper_unit s)"

definition lower_idempotent :: "engine \<Rightarrow> bool" where
  "lower_idempotent E = (\<forall>s. toLowerCase E (toLowerCase E s) = toLowerCase E s)"

text \<open>The engine that maps the Basic Latin letters only; it instantiates the above.\<close>

definition basic_latin :: engine where
  "basic_latin = \<lparr> toLowerCase = map lower_unit, toUpperCase = map upper_unit \<rparr>"

subsection \<open>Numbers\<close>

text \<open>The decimal digits of a non-negative integer, most significant first.\<close>

function digits :: "nat \<Rightarrow> nat list" where
  "digits n = (if n < 10 then [n] else digits (n div 10) @ [n mod 10])"
  by pat_completeness auto
termination
  by (relation "measure id") auto

declare digits.simps [simp del]

text \<open>Number to string, for a non-negative integer (template literals, \<open>toFixed\<close>).\<close>

definition decimal :: "nat \<Rightarrow> jsstring" where
  "decimal n = map (\<lambda>d. 0x30 + of_nat d) (digits n)"

text \<open>
  A Number is an IEEE 754 binary64 value; the model holds its exact value as a rational.
  \<open>a / b\<close> on two integer Numbers \<open>a < 2^53\<close> and \<open>0 < b < 2^53\<close> is the quotient
  rounded to 53 significant bits, ties to even: \<open>binade\<close> finds the scale \<open>k\<close> with
  \<open>2^52 \<le> a * 2^k / b < 2^53\<close>, \<open>round_half_even\<close> rounds the scaled quotient to an
  integer.  The quotient is between \<open>2^-53\<close> and \<open>2^53\<close>: no overflow, no subnormal.
\<close>

definition round_half_even :: "nat \<Rightarrow> nat \<Rightarrow> nat" where
  "round_half_even n d =
     (let q = n div d; r = n mod d
      in if 2 * r < d then q else if d < 2 * r then q + 1
         else if even q then q else q + 1)"

function binade :: "nat \<Rightarrow> nat \<Rightarrow> nat \<Rightarrow> nat" where
  "binade a b k = (if a = 0 \<or> 2 ^ 52 * b \<le> a * 2 ^ k then k else binade a b (Suc k))"
  by pat_completeness auto
termination
proof (relation "measure (\<lambda>(a, b, k). 2 ^ 52 * b - a * 2 ^ k)")
  show "wf (measure (\<lambda>(a, b, k). 2 ^ 52 * b - a * 2 ^ k))"
    by simp
next
  fix a b k :: nat
  assume "\<not> (a = 0 \<or> 2 ^ 52 * b \<le> a * 2 ^ k)"
  then have "0 < a" and "a * 2 ^ k < 2 ^ 52 * b"
    by simp_all
  then have "2 ^ 52 * b - a * 2 ^ Suc k < 2 ^ 52 * b - a * 2 ^ k"
    by (intro diff_less_mono2) simp_all
  then show "((a, b, Suc k), (a, b, k)) \<in> measure (\<lambda>(a, b, k). 2 ^ 52 * b - a * 2 ^ k)"
    by simp
qed

declare binade.simps [simp del]

definition number_div :: "nat \<Rightarrow> nat \<Rightarrow> rat" where
  "number_div a b =
     (let k = binade a b 0 in of_nat (round_half_even (a * 2 ^ k) b) / 2 ^ k)"

text \<open>
  \<open>Number.prototype.toFixed(f)\<close> for \<open>0 \<le> x < 10^21\<close>: the integer \<open>n\<close> with
  \<open>n / 10^f\<close> nearest to \<open>x\<close>, the larger one of two; its digits, padded with zeros to
  \<open>f + 1\<close> digits, with a point before the last \<open>f\<close>.
\<close>

definition toFixed :: "nat \<Rightarrow> rat \<Rightarrow> jsstring" where
  "toFixed f x =
     (let n = nat \<lfloor>x * 10 ^ f + 1 / 2\<rfloor>;
          m = decimal n;
          m = replicate (Suc f - length m) 0x30 @ m;
          k = length m
      in if f = 0 then m else take (k - f) m @ [0x2E] @ drop (k - f) m)"

datatype jsval = JNumber rat | JString jsstring

section \<open>analyzeText\<close>

text \<open>
  \<^verbatim>\<open>
  function analyzeText(text) {
    const lines = text.split('\n');
    const words = text.split(/\s+/).filter(word => word.length > 0);
    const uniqueWords = new Set(words.map(w => w.toLowerCase())).size;
    return {
      charCount: text.length, wordCount: words.length, lineCount: lines.length,
      uniqueWords: uniqueWords,
      avgWordLength: words.length > 0
        ? (words.reduce((sum, word) => sum + word.length, 0) / words.length).toFixed(2)
        : 0
    };
  }
  \<close>
  The size of a \<open>Set\<close> built from an array is the number of its distinct elements.
\<close>

record analysis =
  charCount :: nat
  wordCount :: nat
  lineCount :: nat
  uniqueWords :: nat
  avgWordLength :: jsval

definition words_of :: "jsstring \<Rightarrow> jsstring list" where
  "words_of text = filter (\<lambda>word. length word > 0) (split_ws text)"

definition analyzeText :: "engine \<Rightarrow> jsstring \<Rightarrow> analysis" where
  "analyzeText E text =
     (let lines = split_on 0x0A text;
          words = words_of text;
          uniqueWords = length (remdups (map (\<lambda>w. toLowerCase E w) words))
      in \<lparr> charCount = length text,
           wordCount = length words,
           lineCount = length lines,
           uniqueWords = uniqueWords,
           avgWordLength =
             (if length words > 0
              then JString (toFixed 2
                     (number_div (foldl (\<lambda>sum word. sum + length word) 0 words)
                                 (length words)))
              else JNumber 0) \<rparr>)"

section \<open>transformText\<close>

text \<open>
  \<^verbatim>\<open>
  function transformText(text) {
    return {
      uppercase: text.toUpperCase(),
      lowercase: text.toLowerCase(),
      reversed: text.split('').reverse().join(''),
      capitalized: text.split(' ').map(word =>
        word.charAt(0).toUpperCase() + word.slice(1).toLowerCase()
      ).join(' ')
    };
  }
  \<close>
\<close>

record transformation =
  uppercase :: jsstring
  lowercase :: jsstring
  reversed :: jsstring
  capitalized :: jsstring

definition capitalize_word :: "engine \<Rightarrow> jsstring \<Rightarrow> jsstring" where
  "capitalize_word E word = toUpperCase E (charAt0 word) @ toLowerCase E (slice1 word)"

definition transformText :: "engine \<Rightarrow> jsstring \<Rightarrow> transformation" where
  "transformText E text =
     \<lparr> uppercase = toUpperCase E text,
       lowercase = toLowerCase E text,
       reversed = join [] (rev (split_units text)),
       capitalized = join (js '' '') (map (capitalize_word E) (split_on 0x20 text)) \<rparr>"

section \<open>validateText\<close>

text \<open>
  \<^verbatim>\<open>
  function validateText(text) {
    const issues = [];
    if (text.length === 0) { issues.push('Text is empty'); }
    if (text.length > 1000) { issues.push('Text is too long (>1000 chars)'); }
    if (!/[a-zA-Z]/.test(text)) { issues.push('No alphabetic characters found'); }
    return { isValid: issues.length === 0, issues: issues, textLength: text.length };
  }
  \<close>
\<close>

record validation =
  isValid :: bool
  issues :: "jsstring list"
  textLength :: nat

definition validateText :: "jsstring \<Rightarrow> validation" where
  "validateText text =
     (let issues0 = [];
          issues1 = (if length text = 0 then issues0 @ [js ''Text is empty''] else issues0);
          issues2 = (if length text > 1000
                     then issues1 @ [js ''Text is too long (>1000 chars)''] else issues1);
          issues3 = (if \<not> list_ex is_ascii_letter text
                     then issues2 @ [js ''No alphabetic characters found''] else issues2)
      in \<lparr> isValid = (length issues3 = 0), issues = issues3, textLength = length text \<rparr>)"


section \<open>The switch of \<open>run\<close>\<close>

text \<open>
  \<^verbatim>\<open>
  switch (operationType.toLowerCase()) {
    case 'analyze':
      result = analyzeText(inputText);
      core.info(...);  // five lines
      metadata = { type: 'analysis', ...result };
      break;
    case 'transform':
      result = transformText(inputText);
      core.info(...);  // four lines
      metadata = { type: 'transformation', ...result };
      break;
    case 'validate':
      result = validateText(inputText);
      core.info(...);  // three lines
      metadata = { type: 'validation', ...result };
      break;
    default:
      core.warning(`Unknown operation type: ${operationType}. Defaulting to 'analyze'.`);
      result = analyzeText(inputText);
      metadata = { type: 'analysis', ...result };
  }
  \<close>
  The dispatcher of the JavaScript action.  Its state after the switch is the pair of
  \<open>result\<close> and \<open>metadata\<close> and the lines handed to \<open>core.info\<close> and \<open>core.warning\<close>.
  The text is a string, or missing (\<open>undefined\<close>): each helper starts with a method call
  or a property read on its argument, which throws a TypeError on \<open>undefined\<close>.
\<close>

datatype js_error = TypeError

datatype level = Info | Warning

datatype op_result =
  Analysis analysis | Transformation transformation | Validation validation

record dispatched =
  result :: op_result
  metadata :: "jsstring \<times> op_result"
  logged :: "(level \<times> jsstring) list"

definition boolean :: "bool \<Rightarrow> jsstring" where
  "boolean b = (if b then js ''true'' else js ''false'')"

definition or_else :: "jsstring \<Rightarrow> jsstring \<Rightarrow> jsstring" where
  "or_else s d = (if s = [] then d else s)"

definition analyze_case :: "engine \<Rightarrow> jsstring \<Rightarrow> dispatched" where
  "analyze_case E inputText =
     (let r = analyzeText E inputText
      in \<lparr> result = Analysis r,
           metadata = (js ''analysis'', Analysis r),
           logged =
             [(Info, [0xD83D, 0xDCCA] @ js '' Analysis Results:''),
              (Info, js ''   Characters: '' @ decimal (charCount r)),
              (Info, js ''   Words: '' @ decimal (wordCount r)),
              (Info, js ''   Lines: '' @ decimal (lineCount r)),
              (Info, js ''   Unique Words: '' @ decimal (uniqueWords r))] \<rparr>)"

definition transform_case :: "engine \<Rightarrow> jsstring \<Rightarrow> dispatched" where
  "transform_case E inputText =
     (let r = transformText E inputText
      in \<lparr> result = Transformation r,
           metadata = (js ''transformation'', Transformation r),
           logged =
             [(Info, [0xD83D, 0xDD04] @ js '' Transformation Results:''),
              (Info, js ''   Uppercase: '' @ uppercase r),
              (Info, js ''   Lowercase: '' @ lowercase r),
              (Info, js ''   Reversed: '' @ reversed r)] \<rparr>)"

definition validate_case :: "jsstring \<Rightarrow> dispatched" where
  "validate_case inputText =
     (let r = validateText inputText
      in \<lparr> result = Validation r,
           metadata = (js ''validation'', Validation r),
           logged =
             [(Info, [0x2705] @ js '' Validation Results:''),
              (Info, js ''   Valid: '' @ boolean (isValid r)),
              (Info, js ''   Issues: '' @ or_else (join (js '', '') (issues r)) (js ''None''))] \<rparr>)"

definition default_case :: "engine \<Rightarrow> jsstring \<Rightarrow> jsstring \<Rightarrow> dispatched" where
  "default_case E inputText operationType =
     (let r = analyzeText E inputText
      in \<lparr> result = Analysis r,
           metadata = (js ''analysis'', Analysis r),
           logged =
             [(Warning, js ''Unknown operation type: '' @ operationType
                        @ js ''. Defaulting to '' @ [0x27] @ js ''analyze'' @ [0x27] @ js ''.'')] \<rparr>)"

definition run_dispatch :: "engine \<Rightarrow> jsstring option \<Rightarrow> jsstring \<Rightarrow> js_error + dispatched" where
  "run_dispatch E input operationType =
     (case input of
        None \<Rightarrow> Inl TypeError
      | Some inputText \<Rightarrow>
          (let selector = toLowerCase E operationType
           in if selector = js ''analyze'' then Inr (analyze_case E inputText)
              else if selector = js ''transform'' then Inr (transform_case E inputText)
              else if selector = js ''validate'' then Inr (validate_case inputText)
              else Inr (default_case E inputText operationType)))"

section \<open>The entrypoint of the Docker action\<close>

text \<open>
  A shell string is a sequence of bytes.  What the shell and the tools of the container
  take as one character of it depends on the locale, which neither the Dockerfile nor
  the script sets: the locale is a parameter of the model.  The script starts with
  \<^verbatim>\<open>
  set -e  # Exit on error
  set -u  # Exit on undefined variable
  set -o pipefail  # Exit on pipe failure
  \<close>
  so a command that fails anywhere in a pipeline ends the script with the status of the
  command, and no \<open>RESULT\<close> is set.  A command is modelled by what it does with its
  standard input: it fails with a status or writes its standard output.
\<close>

abbreviation newline :: char where
  "newline \<equiv> CHR 0x0A"

datatype sh_error = Exit nat

type_synonym command = "string \<Rightarrow> sh_error + string"

text \<open>
  A pipeline feeds the output of each command to the next one; under \<open>pipefail\<close> it
  fails as soon as one of its commands does.
\<close>

fun pipeline :: "string \<Rightarrow> command list \<Rightarrow> sh_error + string" where
  "pipeline input [] = Inr input"
| "pipeline input (cmd # cmds) =
     (case cmd input of Inl status \<Rightarrow> Inl status | Inr out \<Rightarrow> pipeline out cmds)"

subsection \<open>The locale\<close>

text \<open>
  The locale of the container, as the C library gives it to bash and to the tools:
  \<open>mblen\<close> is the number of bytes of the character at the head of a string, or nothing
  where no character starts (\<open>mbrlen\<close>); \<open>isspace\<close> and \<open>isprint\<close> say whether a
  character is white space and whether it is printable (\<open>iswspace\<close>, \<open>iswprint\<close>).
\<close>

record ctype =
  mblen :: "string \<Rightarrow> nat option"
  isspace :: "string \<Rightarrow> bool"
  isprint :: "string \<Rightarrow> bool"

text \<open>The length of the next character, when the string holds all of its bytes.\<close>

definition next_char :: "(string \<Rightarrow> nat option) \<Rightarrow> string \<Rightarrow> nat option" where
  "next_char len s =
     (case len s of
        None \<Rightarrow> None
      | Some n \<Rightarrow> if 0 < n \<and> n \<le> length s then Some n else None)"

text \<open>
  The characters of a string, from left to right; nothing when some byte of it does not
  start a character.
\<close>

function characters :: "(string \<Rightarrow> nat option) \<Rightarrow> string \<Rightarrow> string list option" where
  "characters len s =
     (if s = [] then Some []
      else (case next_char len s of
              None \<Rightarrow> None
            | Some n \<Rightarrow>
                (case characters len (drop n s) of
                   None \<Rightarrow> None
                 | Some cs \<Rightarrow> Some (take n s # cs))))"
  by pat_completeness auto
termination
proof (relation "measure (\<lambda>(len, s). length s)")
  show "wf (measure (\<lambda>(len, s). length s))"
    by simp
next
  fix len :: "string \<Rightarrow> nat option" and s :: string and n :: nat
  assume "s \<noteq> []" and "next_char len s = Some n"
  then have "length (drop n s) < length s"
    by (simp add: next_char_def split: option.splits if_splits)
  then show "((len, drop n s), (len, s)) \<in> measure (\<lambda>(len, s). length s)"
    by simp
qed

declare characters.simps [simp del]

text \<open>
  The POSIX locale as the tools of the container see it: the characters are the ASCII
  bytes, and a byte from \<open>0x80\<close> on is no character.  White space is space, TAB, LF,
  VT, FF and CR; the printable characters are the bytes from \<open>0x20\<close> to \<open>0x7E\<close>.
\<close>

definition posix_mblen :: "string \<Rightarrow> nat option" where
  "posix_mblen s =
     (case s of [] \<Rightarrow> None | b # _ \<Rightarrow> if (of_char b :: nat) < 0x80 then Some 1 else None)"

definition is_space :: "char \<Rightarrow> bool" where
  "is_space c = (c = CHR 0x20 \<or> c = CHR 0x09 \<or> c = CHR 0x0A \<or> c = CHR 0x0B
                 \<or> c = CHR 0x0C \<or> c = CHR 0x0D)"

definition posix :: ctype where
  "posix =
     \<lparr> mblen = posix_mblen,
       isspace = (\<lambda>c. case c of [b] \<Rightarrow> is_space b | _ \<Rightarrow> False),
       isprint = (\<lambda>c. case c of [b] \<Rightarrow> 0x20 \<le> (of_char b :: nat) \<and> (of_char b :: nat) \<le> 0x7E
                               | _ \<Rightarrow> False) \<rparr>"

text \<open>
  The characters of a UTF-8 locale are the well-formed byte sequences of UTF-8, one per
  code point: one byte below \<open>0x80\<close>, or a lead byte with one, two or three
  continuation bytes, without overlong forms, surrogates or code points beyond U+10FFFF.
\<close>

definition continuation :: "nat \<Rightarrow> bool" where
  "continuation b = (0x80 \<le> b \<and> b \<le> 0xBF)"

definition utf8_mblen :: "string \<Rightarrow> nat option" where
  "utf8_mblen s =
     (case map of_char s of
        [] \<Rightarrow> None
      | b0 # bs \<Rightarrow>
          if b0 < 0x80 then Some 1
          else if 0xC2 \<le> b0 \<and> b0 \<le> 0xDF then
            (case bs of
               b1 # _ \<Rightarrow> if continuation b1 then Some 2 else None
             | _ \<Rightarrow> None)
          else if 0xE0 \<le> b0 \<and> b0 \<le> 0xEF then
            (case bs of
               b1 # b2 # _ \<Rightarrow>
                 if continuation b1 \<and> continuation b2
                    \<and> (b0 = 0xE0 \<longrightarrow> 0xA0 \<le> b1) \<and> (b0 = 0xED \<longrightarrow> b1 \<le> 0x9F)
                 then Some 3 else None
             | _ \<Rightarrow> None)
          else if 0xF0 \<le> b0 \<and> b0 \<le> 0xF4 then
            (case bs of
               b1 # b2 # b3 # _ \<Rightarrow>
                 if continuation b1 \<and> continuation b2 \<and> continuation b3
                    \<and> (b0 = 0xF0 \<longrightarrow> 0x90 \<le> b1) \<and> (b0 = 0xF4 \<longrightarrow> b1 \<le> 0x8F)
                 then Some 4 else None
             | _ \<Rightarrow> None)
          else None)"

subsection \<open>The shell and the tools\<close>

text \<open>
  The \<open>echo\<close> builtin of bash with one argument: an argument made of \<open>-\<close> and one or
  more of the letters \<open>n\<close>, \<open>e\<close>, \<open>E\<close> is an option and is not printed; \<open>-n\<close> also
  drops the final newline.  Anything else is printed, followed by a newline.
\<close>

definition is_echo_option :: "string \<Rightarrow> bool" where
  "is_echo_option s =
     (case s of
        [] \<Rightarrow> False
      | c # opts \<Rightarrow> c = CHR ''-'' \<and> opts \<noteq> [] \<and> list_all (\<lambda>o'. o' \<in> set ''neE'') opts)"

definition echo :: "string \<Rightarrow> string" where
  "echo s = (if is_echo_option s then (if CHR ''n'' \<in> set s then [] else [newline])
             else s @ [newline])"

text \<open>
  \<open>rev\<close> reads its input line by line and writes every line with its characters in
  reverse order, keeping the line ends.  A line that holds a byte sequence which is no
  character of the locale makes it fail with status 1.
\<close>

definition rev_line :: "(string \<Rightarrow> nat option) \<Rightarrow> string \<Rightarrow> sh_error + string" where
  "rev_line len line =
     (case characters len line of
        None \<Rightarrow> Inl (Exit 1)
      | Some cs \<Rightarrow> Inr (concat (rev cs)))"

fun rev_scan :: "(string \<Rightarrow> nat option) \<Rightarrow> string \<Rightarrow> string \<Rightarrow> sh_error + string" where
  "rev_scan len line [] = rev_line len line"
| "rev_scan len line (c # cs) =
     (if c = newline
      then (case rev_line len line of
              Inl status \<Rightarrow> Inl status
            | Inr reversed_line \<Rightarrow>
                (case rev_scan len [] cs of
                   Inl status \<Rightarrow> Inl status
                 | Inr out \<Rightarrow> Inr (reversed_line @ newline # out)))
      else rev_scan len (line @ [c]) cs)"

definition rev_cmd :: "(string \<Rightarrow> nat option) \<Rightarrow> command" where
  "rev_cmd len input = rev_scan len [] input"

text \<open>Command substitution \<open>$(...)\<close> removes every trailing newline of the output.\<close>

definition command_substitution :: "string \<Rightarrow> string" where
  "command_substitution out = rev (dropWhile (\<lambda>c. c = newline) (rev out))"

text \<open>
  \<open>${#MESSAGE}\<close> is the number of characters of the message; bash counts a byte that
  starts no character as one character.
\<close>

function char_count :: "(string \<Rightarrow> nat option) \<Rightarrow> string \<Rightarrow> nat" where
  "char_count len s =
     (if s = [] then 0
      else (case next_char len s of
              None \<Rightarrow> 1 + char_count len (tl s)
            | Some n \<Rightarrow> 1 + char_count len (drop n s)))"
  by pat_completeness auto
termination
proof (relation "measure (\<lambda>(len, s). length s)")
  show "wf (measure (\<lambda>(len, s). length s))"
    by simp
next
  fix len :: "string \<Rightarrow> nat option" and s :: string
  assume "s \<noteq> []"
  then show "((len, tl s), (len, s)) \<in> measure (\<lambda>(len, s). length s)"
    by simp
next
  fix len :: "string \<Rightarrow> nat option" and s :: string and n :: nat
  assume "s \<noteq> []" and "next_char len s = Some n"
  then have "length (drop n s) < length s"
    by (simp add: next_char_def split: option.splits if_splits)
  then show "((len, drop n s), (len, s)) \<in> measure (\<lambda>(len, s). length s)"
    by simp
qed

declare char_count.simps [simp del]

text \<open>
  \<open>wc -w\<close> prints the number of words on a line.  A white-space character ends a word,
  a printable character that is not white space starts or continues one, and a character
  that is not printable, or a byte that starts no character, does neither.  \<open>tr -d ' '\<close>
  deletes the spaces of its input.
\<close>

function count_words :: "ctype \<Rightarrow> bool \<Rightarrow> string \<Rightarrow> nat" where
  "count_words L in_word s =
     (if s = [] then (if in_word then 1 else 0)
      else (case next_char (mblen L) s of
              None \<Rightarrow> count_words L in_word (tl s)
            | Some n \<Rightarrow>
                if isspace L (take n s)
                then (if in_word then 1 else 0) + count_words L False (drop n s)
                else if isprint L (take n s) then count_words L True (drop n s)
                else count_words L in_word (drop n s)))"
  by pat_completeness auto
termination
proof (relation "measure (\<lambda>(L, in_word, s). length s)", goal_cases)
  case 1
  show ?case by simp
next
  case (2 L in_word s)
  then show ?case by simp
next
  case (3 L in_word s n)
  then show ?case by (simp add: next_char_def split: option.splits if_splits)
next
  case (4 L in_word s n)
  then show ?case by (simp add: next_char_def split: option.splits if_splits)
next
  case (5 L in_word s n)
  then show ?case by (simp add: next_char_def split: option.splits if_splits)
qed

declare count_words.simps [simp del]

definition number :: "nat \<Rightarrow> string" where
  "number n = map (\<lambda>d. char_of (48 + d)) (digits n)"

definition wc_w :: "ctype \<Rightarrow> command" where
  "wc_w L input = Inr (number (count_words L False input) @ [newline])"

definition tr_delete_space :: command where
  "tr_delete_space input = Inr (filter (\<lambda>c. c \<noteq> CHR '' '') input)"

text \<open>
  \<open>tr '[:lower:]' '[:upper:]'\<close> and back: \<open>tr\<close> works on bytes and maps the letters
  \<open>a\<close> to \<open>z\<close> and \<open>A\<close> to \<open>Z\<close>.
\<close>

definition tr_upper :: command where
  "tr_upper input =
     Inr (map (\<lambda>c. if 97 \<le> (of_char c :: nat) \<and> (of_char c :: nat) \<le> 122
                   then char_of (of_char c - (32::nat)) else c) input)"

definition tr_lower :: command where
  "tr_lower input =
     Inr (map (\<lambda>c. if 65 \<le> (of_char c :: nat) \<and> (of_char c :: nat) \<le> 90
                   then char_of (of_char c + (32::nat)) else c) input)"

subsection \<open>The case statement\<close>

text \<open>
  \<^verbatim>\<open>
  case "$PROCESS_TYPE" in
    echo)
      RESULT="$MESSAGE"
      print_colored "$GREEN" "... Echo mode: Returning message as-is" ;;
    reverse)
      RESULT=$(echo "$MESSAGE" | rev)
      print_colored "$GREEN" "... Reverse mode: Reversed the message" ;;
    count)
      CHAR_COUNT=${#MESSAGE}
      WORD_COUNT=$(echo "$MESSAGE" | wc -w | tr -d ' ')
      RESULT="Characters: $CHAR_COUNT, Words: $WORD_COUNT"
      print_colored "$GREEN" "... Count mode: Counted characters and words" ;;
    uppercase)
      RESULT=$(echo "$MESSAGE" | tr '[:lower:]' '[:upper:]')
      print_colored "$GREEN" "... Uppercase mode: Converted to uppercase" ;;
    lowercase)
      RESULT=$(echo "$MESSAGE" | tr '[:upper:]' '[:lower:]')
      print_colored "$GREEN" "... Lowercase mode: Converted to lowercase" ;;
    *)
      print_colored "$YELLOW" "... Unknown process type '$PROCESS_TYPE', defaulting to echo"
      RESULT="$MESSAGE" ;;
  esac
  \<close>
  The dispatcher of the Docker action.  It ends with the status of a failed pipeline, or
  with \<open>RESULT\<close> and the calls of \<open>print_colored\<close>, each with its colour and its
  message.
\<close>

datatype colour = GREEN | YELLOW

record processed =
  RESULT :: string
  printed :: "(colour \<times> string) list"

definition process_message :: "ctype \<Rightarrow> string \<Rightarrow> string \<Rightarrow> sh_error + processed" where
  "process_message L MESSAGE PROCESS_TYPE =
     (if PROCESS_TYPE = ''echo'' then
        Inr \<lparr> RESULT = MESSAGE,
              printed = [(GREEN, [CHR 0xF0, CHR 0x9F, CHR 0x93, CHR 0xA4]
                                 @ '' Echo mode: Returning message as-is'')] \<rparr>
      else if PROCESS_TYPE = ''reverse'' then
        (case pipeline (echo MESSAGE) [rev_cmd (mblen L)] of
           Inl status \<Rightarrow> Inl status
         | Inr out \<Rightarrow>
             Inr \<lparr> RESULT = command_substitution out,
                   printed = [(GREEN, [CHR 0xF0, CHR 0x9F, CHR 0x94, CHR 0x84]
                                      @ '' Reverse mode: Reversed the message'')] \<rparr>)
      else if PROCESS_TYPE = ''count'' then
        (let CHAR_COUNT = number (char_count (mblen L) MESSAGE)
         in case pipeline (echo MESSAGE) [wc_w L, tr_delete_space] of
              Inl status \<Rightarrow> Inl status
            | Inr out \<Rightarrow>
                (let WORD_COUNT = command_substitution out
                 in Inr \<lparr> RESULT = ''Characters: '' @ CHAR_COUNT @ '', Words: '' @ WORD_COUNT,
                          printed = [(GREEN, [CHR 0xF0, CHR 0x9F, CHR 0x93, CHR 0x8A]
                                       @ '' Count mode: Counted characters and words'')] \<rparr>))
      else if PROCESS_TYPE = ''uppercase'' then
        (case pipeline (echo MESSAGE) [tr_upper] of
           Inl status \<Rightarrow> Inl status
         | Inr out \<Rightarrow>
             Inr \<lparr> RESULT = command_substitution out,
                   printed = [(GREEN, [CHR 0xE2, CHR 0xAC, CHR 0x86, CHR 0xEF, CHR 0xB8, CHR 0x8F]
                                      @ ''  Uppercase mode: Converted to uppercase'')] \<rparr>)
      else if PROCESS_TYPE = ''lowercase'' then
        (case pipeline (echo MESSAGE) [tr_lower] of
           Inl status \<Rightarrow> Inl status
         | Inr out \<Rightarrow>
             Inr \<lparr> RESULT = command_substitution out,
                   printed = [(GREEN, [CHR 0xE2, CHR 0xAC, CHR 0x87, CHR 0xEF, CHR 0xB8, CHR 0x8F]
                                      @ ''  Lowercase mode: Converted to lowercase'')] \<rparr>)
      else
        Inr \<lparr> RESULT = MESSAGE,
              printed = [(YELLOW, [CHR 0xE2, CHR 0x9A, CHR 0xA0, CHR 0xEF, CHR 0xB8, CHR 0x8F]
                                  @ ''  Unknown process type '' @ [CHR 0x27] @ PROCESS_TYPE
                                  @ [CHR 0x27] @ '', defaulting to echo'')] \<rparr>)"


section \<open>What the specification speaks of\<close>

subsection \<open>Code points\<close>








subsection \<open>Tokens\<close>

text \<open>
  The whitespace-delimited non-empty words of a text: its maximal runs of code units
  that are not whitespace.
\<close>

function ws_tokens :: "jsstring \<Rightarrow> jsstring list" where
  "ws_tokens [] = []"
| "ws_tokens (u # us) =
     (if is_whitespace u then ws_tokens us
      else (u # takeWhile (\<lambda>v. \<not> is_whitespace v) us)
           # ws_tokens (dropWhile (\<lambda>v. \<not> is_whitespace v) us))"
  by pat_completeness auto
termination
  by (relation "measure length") (auto simp: length_dropWhile_le less_Suc_eq_le)

text \<open>
  Title case over the tokens that a class of separators delimits: every maximal run of
  code units that are not separators has its first code unit upper-cased and its rest
  lower-cased; the separators stay.
\<close>

function title_case :: "(code_unit \<Rightarrow> bool) \<Rightarrow> engine \<Rightarrow> jsstring \<Rightarrow> jsstring" where
  "title_case sep E [] = []"
| "title_case sep E (u # us) =
     (if sep u then u # title_case sep E us
      else capitalize_word E (u # takeWhile (\<lambda>v. \<not> sep v) us)
           @ title_case sep E (dropWhile (\<lambda>v. \<not> sep v) us))"
  by pat_completeness auto
termination
  by (relation "measure (\<lambda>(sep, E, s). length s)") (auto simp: length_dropWhile_le less_Suc_eq_le)

text \<open>
  Words are the same under case-insensitive comparison when they have the same lower
  case; the number of distinct words is the number of classes of that equivalence.
\<close>

definition same_ignoring_case :: "engine \<Rightarrow> (jsstring \<times> jsstring) set" where
  "same_ignoring_case E = {(a, b). toLowerCase E a = toLowerCase E b}"

definition distinct_ignoring_case :: "engine \<Rightarrow> jsstring list \<Rightarrow> nat" where
  "distinct_ignoring_case E ws = card (set ws // same_ignoring_case E)"

text \<open>The arithmetic mean of the lengths of a list of words.\<close>

definition mean_length :: "jsstring list \<Rightarrow> rat" where
  "mean_length ws = of_nat (sum_list (map length ws)) / of_nat (length ws)"

subsection \<open>Lines and characters\<close>



text \<open>What the dispatcher of the Docker action ends with: a status, or its \<open>RESULT\<close>.\<close>

definition RESULT_of :: "sh_error + processed \<Rightarrow> sh_error + string" where
  "RESULT_of outcome = map_sum id RESULT outcome"

text \<open>
  In a locale without shift states the length of a character depends on its own bytes
  only, not on what follows it.  The POSIX locale and the UTF-8 locales are such.
\<close>

definition stateless :: "(string \<Rightarrow> nat option) \<Rightarrow> bool" where
  "stateless len =
     (\<forall>s n t. next_char len s = Some n \<longrightarrow> next_char len (take n s @ t) = Some n)"

text \<open>
  The decimal numeral of \<open>n / 100\<close> with two digits after the point: the digits of the
  integer part, the point, the tenths and the hundredths.
\<close>

definition two_decimals :: "nat \<Rightarrow> jsstring" where
  "two_decimals n =
     decimal (n div 100) @ [0x2E, 0x30 + of_nat (n div 10 mod 10), 0x30 + of_nat (n mod 10)]"

section \<open>Properties\<close>

subsection \<open>The Basic Latin engine\<close>

lemma lower_unit_idem: "lower_unit (lower_unit u) = lower_unit u"
  unfolding lower_unit_def by (simp; unat_arith)

lemma basic_latin_ascii_case: "ascii_case basic_latin"
  by (simp add: ascii_case_def basic_latin_def)

lemma basic_latin_lower_idempotent: "lower_idempotent basic_latin"
  by (simp add: lower_idempotent_def basic_latin_def lower_unit_idem)

lemma ascii_case_lower: "ascii_case E \<Longrightarrow> is_ascii s \<Longrightarrow> toLowerCase E s = map lower_unit s"
  by (simp add: ascii_case_def)

lemma ascii_case_upper: "ascii_case E \<Longrightarrow> is_ascii s \<Longrightarrow> toUpperCase E s = map upper_unit s"
  by (simp add: ascii_case_def)

lemma lower_analyze: "ascii_case E \<Longrightarrow> toLowerCase E (js ''analyze'') = js ''analyze''"
  by (subst ascii_case_lower) (simp_all add: is_ascii_def js_def lower_unit_def)

subsection \<open>The result of validate\<close>

text \<open>
  C10: the result of \<open>validateText\<close> has a third field, \<open>textLength\<close>, which is the
  length of the text in code units; the dispatcher hands that result back whenever the
  lower-cased operation name is \<open>validate\<close>.
\<close>

theorem validate_carries_textLength:
  "textLength (validateText text) = length text \<and>
   (toLowerCase E operationType = js ''validate'' \<longrightarrow>
      (\<exists>d v. run_dispatch E (Some text) operationType = Inr d \<and> result d = Validation v
         \<and> textLength v = length text \<and> isValid v = isValid (validateText text)
         \<and> issues v = issues (validateText text)))"
  by (simp add: run_dispatch_def validate_case_def validateText_def Let_def js_def)

theorem validate_carries_textLength_witness:
  "textLength (validateText (js ''abc'')) = 3 \<and>
   (\<exists>d v. run_dispatch basic_latin (Some (js ''abc'')) (js ''Validate'') = Inr d
      \<and> result d = Validation v \<and> textLength v = 3)"
proof -
  have sel: "toLowerCase basic_latin (js ''Validate'') = js ''validate''"
    by (simp add: basic_latin_def js_def lower_unit_def)
  have len: "length (js ''abc'') = 3"
    by (simp add: js_def)
  from validate_carries_textLength [of "js ''abc''" basic_latin "js ''Validate''"] sel len
  show ?thesis
    by auto
qed

subsection \<open>Validation issues\<close>

text \<open>
  C3, as stated: the issues would hold the code \<open>empty\<close> for the empty text.  The list
  of \<open>validateText\<close> holds sentences, not codes, so the code is not in it.
\<close>

theorem validate_issue_code_counterexample:
  "length ([] :: jsstring) = 0 \<and> js ''empty'' \<notin> set (issues (validateText []))"
  by (simp add: validateText_def js_def)

text \<open>
  C3, amended: the issues hold the sentence \<open>Text is empty\<close> exactly when the text has
  no code unit, \<open>Text is too long (>1000 chars)\<close> exactly when it has more than 1000,
  \<open>No alphabetic characters found\<close> exactly when none of its code units is a letter
  \<open>a\<close> to \<open>z\<close> or \<open>A\<close> to \<open>Z\<close>; and \<open>isValid\<close> is true exactly when there is no
  issue.
\<close>

theorem validate_issues:
  "(js ''Text is empty'' \<in> set (issues (validateText text)) \<longleftrightarrow> length text = 0) \<and>
   (js ''Text is too long (>1000 chars)'' \<in> set (issues (validateText text))
      \<longleftrightarrow> 1000 < length text) \<and>
   (js ''No alphabetic characters found'' \<in> set (issues (validateText text))
      \<longleftrightarrow> \<not> list_ex is_ascii_letter text) \<and>
   (isValid (validateText text) \<longleftrightarrow> issues (validateText text) = [])"
  by (auto simp add: validateText_def Let_def js_def)

theorem validate_issues_witness:
  "js ''Text is empty'' \<in> set (issues (validateText [])) \<and>
   js ''Text is too long (>1000 chars)'' \<notin> set (issues (validateText [])) \<and>
   js ''No alphabetic characters found'' \<in> set (issues (validateText [])) \<and>
   \<not> isValid (validateText [])"
  using validate_issues [of "[]"] by (simp add: validateText_def)

subsection \<open>Characters and lines of shell strings\<close>

lemma next_char_bounds: "next_char len s = Some n \<Longrightarrow> 0 < n \<and> n \<le> length s"
  by (simp add: next_char_def split: option.splits if_splits)

lemma characters_empty: "characters len [] = Some []"
  by (simp add: characters.simps)

lemma characters_concat: "characters len s = Some cs \<Longrightarrow> concat cs = s"
proof (induction len s arbitrary: cs rule: characters.induct)
  case (1 len s)
  show ?case
  proof (cases "s = []")
    case True
    with "1.prems" show ?thesis
      by (simp add: characters_empty)
  next
    case False
    with "1.prems" obtain n cs' where n: "next_char len s = Some n"
      and cs': "characters len (drop n s) = Some cs'" and cs: "cs = take n s # cs'"
      by (subst (asm) characters.simps) (auto split: option.splits)
    from "1.IH" [OF False n cs'] cs show ?thesis
      by simp
  qed
qed

lemma rev_line_Inr:
  assumes "rev_line len line = Inr r"
  shows "set r = set line" and "length r = length line"
proof -
  from assms obtain cs where cs: "characters len line = Some cs" and r: "r = concat (rev cs)"
    by (auto simp: rev_line_def split: option.splits)
  from cs have line: "concat cs = line"
    by (rule characters_concat)
  from r line show "set r = set line"
    by auto
  have "length (concat (rev cs)) = length (concat cs)"
    by (simp add: length_concat rev_map [symmetric])
  with r line show "length r = length line"
    by simp
qed


lemma rev_line_empty: "rev_line len [] = Inr []"
  by (simp add: rev_line_def characters_empty)

lemma rev_scan_line:
  "newline \<notin> set s \<Longrightarrow>
     rev_scan len line (s @ newline # rest) =
       (case rev_line len (line @ s) of
          Inl status \<Rightarrow> Inl status
        | Inr r \<Rightarrow> (case rev_scan len [] rest of
                     Inl status \<Rightarrow> Inl status
                   | Inr out \<Rightarrow> Inr (r @ newline # out)))"
  by (induction s arbitrary: line) auto

lemma rev_scan_last_line: "newline \<notin> set s \<Longrightarrow> rev_scan len line s = rev_line len (line @ s)"
  by (induction s arbitrary: line) auto

lemma rev_scan_snoc_newline:
  "rev_scan len line (s @ [newline]) =
     (case rev_scan len line s of Inl status \<Rightarrow> Inl status | Inr r \<Rightarrow> Inr (r @ [newline]))"
  by (induction s arbitrary: line) (auto simp: rev_line_empty split: sum.splits)



lemma command_substitution_snoc:
  "command_substitution (s @ [newline]) = command_substitution s"
  by (simp add: command_substitution_def)

lemma command_substitution_id:
  "s = [] \<or> last s \<noteq> newline \<Longrightarrow> command_substitution s = s"
proof (cases s rule: rev_cases)
  case Nil
  then show ?thesis by (simp add: command_substitution_def)
next
  case (snoc xs x)
  assume "s = [] \<or> last s \<noteq> newline"
  with snoc show ?thesis by (simp add: command_substitution_def)
qed

lemma reverse_case:
  "RESULT_of (process_message L m ''reverse'')
     = map_sum id command_substitution (rev_cmd (mblen L) (echo m))"
  by (simp add: process_message_def RESULT_of_def split: sum.splits)

lemma reverse_case_message:
  "\<not> is_echo_option m \<Longrightarrow>
     RESULT_of (process_message L m ''reverse'')
       = map_sum id command_substitution (rev_scan (mblen L) [] m)"
  by (simp add: reverse_case echo_def rev_cmd_def rev_scan_snoc_newline
        command_substitution_snoc split: sum.splits)


subsection \<open>Totality\<close>




subsection \<open>Unknown operation names\<close>

text \<open>
  C1: an operation name outside the known set raises nothing.  In the JavaScript action
  (names compared in lower case) the switch logs a warning and its result and metadata
  are those of the operation \<open>analyze\<close>; in the Docker action the \<open>case\<close> prints its
  warning in yellow and the result is that of \<open>echo\<close>, in every locale.  The built-in
  \<open>toLowerCase\<close> is assumed to map ASCII strings letter by letter.
\<close>

theorem unknown_operation_falls_back:
  assumes "ascii_case E"
  shows "(toLowerCase E operationType \<notin> {js ''analyze'', js ''transform'', js ''validate''} \<longrightarrow>
            (\<exists>d a. run_dispatch E (Some text) operationType = Inr d
               \<and> run_dispatch E (Some text) (js ''analyze'') = Inr a
               \<and> result d = result a \<and> metadata d = metadata a
               \<and> Warning \<in> fst ` set (logged d))) \<and>
         (PROCESS_TYPE \<notin> {''echo'', ''reverse'', ''count'', ''uppercase'', ''lowercase''} \<longrightarrow>
            (\<exists>p q. process_message L MESSAGE PROCESS_TYPE = Inr p
               \<and> process_message L MESSAGE ''echo'' = Inr q
               \<and> RESULT p = RESULT q \<and> YELLOW \<in> fst ` set (printed p)))"
  using lower_analyze [OF assms]
  by (simp add: run_dispatch_def default_case_def analyze_case_def process_message_def Let_def)

theorem unknown_operation_falls_back_witness:
  "(\<exists>d a. run_dispatch basic_latin (Some (js ''some text'')) (js ''no-such-op'') = Inr d
      \<and> run_dispatch basic_latin (Some (js ''some text'')) (js ''analyze'') = Inr a
      \<and> result d = result a \<and> metadata d = metadata a
      \<and> Warning \<in> fst ` set (logged d)) \<and>
   (\<exists>p q. process_message posix ''some text'' ''no-such-op'' = Inr p
      \<and> process_message posix ''some text'' ''echo'' = Inr q
      \<and> RESULT p = RESULT q \<and> YELLOW \<in> fst ` set (printed p))"
proof -
  have sel: "toLowerCase basic_latin (js ''no-such-op'')
               \<notin> {js ''analyze'', js ''transform'', js ''validate''}"
    by (simp add: basic_latin_def js_def lower_unit_def)
  have ptype: "''no-such-op'' \<notin> {''echo'', ''reverse'', ''count'', ''uppercase'', ''lowercase''}"
    by simp
  from unknown_operation_falls_back [OF basic_latin_ascii_case,
      of "js ''no-such-op''" "js ''some text''" "''no-such-op''" posix "''some text''"] sel ptype
  show ?thesis
    by blast
qed

subsection \<open>The case of the operation name\<close>

text \<open>
  C4, as stated: the name would be matched without regard to case in both actions.  The
  \<open>case\<close> of the entrypoint compares the name as it is: \<open>REVERSE\<close> is unknown there and
  echoes the message, where its lower case \<open>reverse\<close> reverses it.
\<close>

theorem case_sensitive_counterexample:
  "tr_lower ''REVERSE'' = Inr ''reverse'' \<and>
   RESULT_of (process_message posix ''abc'' ''REVERSE'') = Inr ''abc'' \<and>
   RESULT_of (process_message posix ''abc'' ''reverse'') = Inr ''cba'' \<and>
   RESULT_of (process_message posix ''abc'' ''REVERSE'')
     \<noteq> RESULT_of (process_message posix ''abc'' ''reverse'')"
  by code_simp

text \<open>
  C4, amended: the switch of \<open>run\<close> compares the lower-cased name, so an operation name
  and its lower case give the same result and metadata, and a name whose lower case is
  \<open>analyze\<close>, \<open>transform\<close> or \<open>validate\<close> selects that operation (for a built-in
  \<open>toLowerCase\<close> that leaves a lower-cased string unchanged).  The entrypoint matches
  the name exactly: every name other than the five lower-case ones, an upper-case
  spelling of them too, falls back to \<open>echo\<close>.
\<close>

theorem operation_name_case:
  assumes "lower_idempotent E"
  shows "(\<exists>d d'. run_dispatch E (Some text) operationType = Inr d
            \<and> run_dispatch E (Some text) (toLowerCase E operationType) = Inr d'
            \<and> result d = result d' \<and> metadata d = metadata d') \<and>
         (toLowerCase E operationType = js ''analyze'' \<longrightarrow>
            run_dispatch E (Some text) operationType = Inr (analyze_case E text)) \<and>
         (toLowerCase E operationType = js ''transform'' \<longrightarrow>
            run_dispatch E (Some text) operationType = Inr (transform_case E text)) \<and>
         (toLowerCase E operationType = js ''validate'' \<longrightarrow>
            run_dispatch E (Some text) operationType = Inr (validate_case text)) \<and>
         (PROCESS_TYPE \<notin> {''echo'', ''reverse'', ''count'', ''uppercase'', ''lowercase''} \<longrightarrow>
            (\<exists>p. process_message L MESSAGE PROCESS_TYPE = Inr p \<and> RESULT p = MESSAGE))"
proof -
  from assms have "toLowerCase E (toLowerCase E operationType) = toLowerCase E operationType"
    by (simp add: lower_idempotent_def)
  then show ?thesis
    by (simp add: run_dispatch_def default_case_def analyze_case_def transform_case_def
          validate_case_def process_message_def Let_def js_def)
qed

theorem operation_name_case_witness:
  "(\<exists>d d'. run_dispatch basic_latin (Some (js ''abc'')) (js ''TransForm'') = Inr d
      \<and> run_dispatch basic_latin (Some (js ''abc'')) (js ''transform'') = Inr d'
      \<and> result d = result d' \<and> metadata d = metadata d') \<and>
   run_dispatch basic_latin (Some (js ''abc'')) (js ''TransForm'')
     = Inr (transform_case basic_latin (js ''abc'')) \<and>
   (\<exists>p. process_message posix ''abc'' ''REVERSE'' = Inr p \<and> RESULT p = ''abc'')"
proof -
  have sel: "toLowerCase basic_latin (js ''TransForm'') = js ''transform''"
    by (simp add: basic_latin_def js_def lower_unit_def)
  have ptype: "''REVERSE'' \<notin> {''echo'', ''reverse'', ''count'', ''uppercase'', ''lowercase''}"
    by simp
  from operation_name_case [OF basic_latin_lower_idempotent,
      of "js ''abc''" "js ''TransForm''" "''REVERSE''" posix "''abc''"] sel ptype
  show ?thesis
    by auto
qed

subsection \<open>Reversal\<close>

lemma join_empty_separator: "join [] xs = concat xs"
  by (induction "[] :: jsstring" xs rule: join.induct) simp_all

lemma concat_units: "concat (map (\<lambda>u. [u]) xs) = xs"
  by (induction xs) simp_all

lemma reversed_code_units: "reversed (transformText E text) = rev text"
proof -
  have "rev (split_units text) = split_units (rev text)"
    by (simp add: split_units_def rev_map)
  then show ?thesis
    by (simp add: transformText_def join_empty_separator split_units_def concat_units)
qed




lemma characters_valid:
  "stateless len \<Longrightarrow> characters len s = Some cs \<Longrightarrow>
     \<forall>c \<in> set cs. c \<noteq> [] \<and> (\<forall>t. next_char len (c @ t) = Some (length c))"
proof (induction len s arbitrary: cs rule: characters.induct)
  case (1 len s)
  show ?case
  proof (cases "s = []")
    case True
    with "1.prems" show ?thesis
      by (simp add: characters_empty)
  next
    case False
    with "1.prems" obtain n cs' where n: "next_char len s = Some n"
      and cs': "characters len (drop n s) = Some cs'" and cs: "cs = take n s # cs'"
      by (subst (asm) characters.simps) (auto split: option.splits)
    from n have bounds: "0 < n" "n \<le> length s"
      using next_char_bounds by blast+
    from "1.prems"(1) n have "\<forall>t. next_char len (take n s @ t) = Some n"
      by (simp add: stateless_def)
    with bounds False have "take n s \<noteq> [] \<and> (\<forall>t. next_char len (take n s @ t) = Some (length (take n s)))"
      by (simp add: min_def)
    with "1.IH" [OF False n "1.prems"(1) cs'] cs show ?thesis
      by simp
  qed
qed

lemma characters_of_concat:
  "\<forall>c \<in> set cs. c \<noteq> [] \<and> (\<forall>t. next_char len (c @ t) = Some (length c)) \<Longrightarrow>
     characters len (concat cs) = Some cs"
proof (induction cs)
  case Nil
  then show ?case by (simp add: characters_empty)
next
  case (Cons c cs)
  then have "c \<noteq> []" and "next_char len (c @ concat cs) = Some (length c)"
    and "characters len (concat cs) = Some cs"
    by simp_all
  then show ?case
    by (subst characters.simps) simp
qed

lemma rev_line_twice:
  assumes "stateless len" and "rev_line len line = Inr r"
  shows "rev_line len r = Inr line"
proof -
  from assms(2) obtain cs where cs: "characters len line = Some cs" and r: "r = concat (rev cs)"
    by (auto simp: rev_line_def split: option.splits)
  from assms(1) cs
  have "\<forall>c \<in> set (rev cs). c \<noteq> [] \<and> (\<forall>t. next_char len (c @ t) = Some (length c))"
    using characters_valid [of len line cs] by simp
  then have "characters len (concat (rev cs)) = Some (rev cs)"
    by (rule characters_of_concat)
  with r characters_concat [OF cs] show ?thesis
    by (simp add: rev_line_def)
qed

lemma rev_scan_twice:
  "stateless len \<Longrightarrow> newline \<notin> set line \<Longrightarrow> rev_scan len line s = Inr r \<Longrightarrow>
     rev_scan len [] r = Inr (line @ s)"
proof (induction s arbitrary: line r)
  case Nil
  then have r: "rev_line len line = Inr r"
    by simp
  with Nil.prems(2) have "newline \<notin> set r"
    by (simp add: rev_line_Inr)
  then have "rev_scan len [] r = rev_line len r"
    using rev_scan_last_line [of r len "[]"] by simp
  with rev_line_twice [OF Nil.prems(1) r] show ?case
    by simp
next
  case (Cons c cs)
  show ?case
  proof (cases "c = newline")
    case True
    with Cons.prems(3) obtain r1 out where r1: "rev_line len line = Inr r1"
      and out: "rev_scan len [] cs = Inr out" and r: "r = r1 @ newline # out"
      by (auto split: sum.splits)
    from r1 Cons.prems(2) have "newline \<notin> set r1"
      by (simp add: rev_line_Inr)
    then have "rev_scan len [] r =
        (case rev_line len r1 of
           Inl status \<Rightarrow> Inl status
         | Inr x \<Rightarrow> (case rev_scan len [] out of
                      Inl status \<Rightarrow> Inl status
                    | Inr y \<Rightarrow> Inr (x @ newline # y)))"
      unfolding r using rev_scan_line [of r1 len "[]" out] by simp
    moreover from Cons.prems(1) r1 have "rev_line len r1 = Inr line"
      by (rule rev_line_twice)
    moreover from Cons.IH [of "[]" out] Cons.prems(1) out have "rev_scan len [] out = Inr cs"
      by simp
    ultimately show ?thesis
      using True by simp
  next
    case False
    with Cons.IH [of "line @ [c]" r] Cons.prems show ?thesis
      by simp
  qed
qed

lemma rev_scan_last:
  "rev_scan len line s = Inr r \<Longrightarrow> line @ s \<noteq> [] \<Longrightarrow> last (line @ s) \<noteq> newline \<Longrightarrow>
     newline \<notin> set line \<Longrightarrow> r \<noteq> [] \<and> last r \<noteq> newline"
proof (induction s arbitrary: line r)
  case Nil
  then have "set r = set line" and "length r = length line"
    by (simp_all add: rev_line_Inr)
  with Nil.prems show ?case
    by (metis append_Nil2 last_in_set length_0_conv)
next
  case (Cons c cs)
  show ?case
  proof (cases "c = newline")
    case True
    with Cons.prems(1) obtain r1 out where out: "rev_scan len [] cs = Inr out"
      and r: "r = r1 @ newline # out"
      by (auto split: sum.splits)
    from True Cons.prems(3) have "cs \<noteq> []" and "last cs \<noteq> newline"
      by (auto split: if_splits)
    with Cons.IH [of "[]" out] out have "out \<noteq> [] \<and> last out \<noteq> newline"
      by simp
    with r show ?thesis
      by simp
  next
    case False
    with Cons.IH [of "line @ [c]" r] Cons.prems show ?thesis
      by simp
  qed
qed

lemma stateless_posix: "stateless posix_mblen"
  by (auto simp: stateless_def next_char_def posix_mblen_def split: list.splits if_splits)

lemma stateless_utf8: "stateless utf8_mblen"
proof -
  have "next_char utf8_mblen (take n s @ t) = Some n" if n: "next_char utf8_mblen s = Some n"
    for s n t
  proof -
    from n have len: "utf8_mblen s = Some n" and bounds: "0 < n" "n \<le> length s"
      by (auto simp: next_char_def split: option.splits if_splits)
    from len have "n \<in> {1, 2, 3, 4}"
      by (auto simp: utf8_mblen_def split: list.splits if_splits)
    then consider "n = 1" | "n = 2" | "n = 3" | "n = 4"
      by auto
    then have "utf8_mblen (take n s @ t) = Some n"
    proof cases
      case 1
      with len bounds show ?thesis
        by (cases s) (auto simp: utf8_mblen_def split: list.splits if_splits)
    next
      case 2
      with len bounds obtain a b r where "s = a # b # r"
        by (cases s; cases "tl s") auto
      with len 2 show ?thesis
        by (auto simp: utf8_mblen_def split: list.splits if_splits)
    next
      case 3
      with len bounds obtain a b c r where "s = a # b # c # r"
        by (cases s; cases "tl s"; cases "tl (tl s)") auto
      with len 3 show ?thesis
        by (auto simp: utf8_mblen_def split: list.splits if_splits)
    next
      case 4
      with len bounds obtain a b c d r where "s = a # b # c # d # r"
        by (cases s; cases "tl s"; cases "tl (tl s)"; cases "tl (tl (tl s))") auto
      with len 4 show ?thesis
        by (auto simp: utf8_mblen_def split: list.splits if_splits)
    qed
    with bounds show ?thesis
      by (simp add: next_char_def)
  qed
  then show ?thesis
    unfolding stateless_def by blast
qed





text \<open>
  C6, as stated: reversing the result of \<open>reverse\<close> would give back every non-empty
  text.  In the Docker action the command substitution drops the newline at the end of
  the message \<open>ab\<close>, newline: its reversal is \<open>ba\<close>, and reversing that gives \<open>ab\<close>
  without the newline.
\<close>

theorem reverse_twice_counterexample:
  "''ab'' @ [newline] \<noteq> [] \<and>
   RESULT_of (process_message posix (''ab'' @ [newline]) ''reverse'') = Inr ''ba'' \<and>
   RESULT_of (process_message posix ''ba'' ''reverse'') = Inr ''ab'' \<and>
   ''ab'' \<noteq> ''ab'' @ [newline]"
  by code_simp

text \<open>
  C6, amended: reversing the \<open>reversed\<close> field of \<open>transformText\<close> again gives back
  the text, for every text.  In the Docker action, in a locale without shift states,
  \<open>reverse\<close> applied to its own result gives back every non-empty message that does
  not end with a newline, whenever the first reversal ends with a result and neither
  the message nor that result is an option of \<open>echo\<close>.
\<close>

theorem reverse_involution:
  "reversed (transformText E (reversed (transformText E text))) = text \<and>
   (stateless (mblen L) \<and> MESSAGE \<noteq> [] \<and> last MESSAGE \<noteq> newline \<and> \<not> is_echo_option MESSAGE
      \<and> RESULT_of (process_message L MESSAGE ''reverse'') = Inr r \<and> \<not> is_echo_option r \<longrightarrow>
    RESULT_of (process_message L r ''reverse'') = Inr MESSAGE)"
proof (intro conjI impI)
  show "reversed (transformText E (reversed (transformText E text))) = text"
    by (simp add: reversed_code_units)
next
  assume m: "stateless (mblen L) \<and> MESSAGE \<noteq> [] \<and> last MESSAGE \<noteq> newline
      \<and> \<not> is_echo_option MESSAGE
      \<and> RESULT_of (process_message L MESSAGE ''reverse'') = Inr r \<and> \<not> is_echo_option r"
  then obtain out where out: "rev_scan (mblen L) [] MESSAGE = Inr out"
    and r: "r = command_substitution out"
    by (cases "rev_scan (mblen L) [] MESSAGE") (auto simp: reverse_case_message)
  from out m have "out \<noteq> [] \<and> last out \<noteq> newline"
    using rev_scan_last [of "mblen L" "[]" MESSAGE out] by simp
  with r have "r = out"
    by (simp add: command_substitution_id)
  with out m have "rev_scan (mblen L) [] r = Inr MESSAGE"
    using rev_scan_twice [of "mblen L" "[]" MESSAGE out] by simp
  with m show "RESULT_of (process_message L r ''reverse'') = Inr MESSAGE"
    by (simp add: reverse_case_message command_substitution_id)
qed

theorem reverse_involution_witness:
  "reversed (transformText basic_latin (reversed (transformText basic_latin (js ''abc''))))
     = js ''abc'' \<and>
   RESULT_of (process_message posix ''cba'' ''reverse'') = Inr ''abc'' \<and>
   RESULT_of (process_message (posix \<lparr> mblen := utf8_mblen \<rparr>)
       (''b'' @ [CHR 0xF0, CHR 0x9F, CHR 0x98, CHR 0x80] @ ''a'') ''reverse'')
     = Inr (''a'' @ [CHR 0xF0, CHR 0x9F, CHR 0x98, CHR 0x80] @ ''b'')"
proof -
  let ?U = "posix \<lparr> mblen := utf8_mblen \<rparr>"
  let ?m = "''a'' @ [CHR 0xF0, CHR 0x9F, CHR 0x98, CHR 0x80] @ ''b''"
  let ?r = "''b'' @ [CHR 0xF0, CHR 0x9F, CHR 0x98, CHR 0x80] @ ''a''"
  have p: "stateless (mblen posix) \<and> ''abc'' \<noteq> [] \<and> last ''abc'' \<noteq> newline
      \<and> \<not> is_echo_option ''abc''
      \<and> RESULT_of (process_message posix ''abc'' ''reverse'') = Inr ''cba''
      \<and> \<not> is_echo_option ''cba''"
  proof -
    have "RESULT_of (process_message posix ''abc'' ''reverse'') = Inr ''cba''"
      by code_simp
    then show ?thesis
      by (simp add: posix_def stateless_posix is_echo_option_def)
  qed
  have u: "stateless (mblen ?U) \<and> ?m \<noteq> [] \<and> last ?m \<noteq> newline \<and> \<not> is_echo_option ?m
      \<and> RESULT_of (process_message ?U ?m ''reverse'') = Inr ?r \<and> \<not> is_echo_option ?r"
  proof -
    have "RESULT_of (process_message ?U ?m ''reverse'') = Inr ?r"
      by code_simp
    then show ?thesis
      by (simp add: stateless_utf8 is_echo_option_def)
  qed
  from reverse_involution [of basic_latin "js ''abc''" posix "''abc''" "''cba''"] p
    reverse_involution [of basic_latin "js ''abc''" ?U ?m ?r] u
  show ?thesis
    by blast
qed

subsection \<open>Title case\<close>

lemma split_scan_not_empty: "split_scan sep piece text \<noteq> []"
  by (induction "text" arbitrary: piece) simp_all

lemma join_Cons: "ys \<noteq> [] \<Longrightarrow> join sep (x # ys) = x @ sep @ join sep ys"
  by (cases ys) simp_all

lemma capitalize_word_empty: "ascii_case E \<Longrightarrow> capitalize_word E [] = []"
  by (simp add: capitalize_word_def charAt0_def slice1_def ascii_case_lower ascii_case_upper
        is_ascii_def)

lemma title_case_token:
  "p \<noteq> [] \<Longrightarrow> \<forall>u \<in> set p. \<not> sep u \<Longrightarrow> rest = [] \<or> sep (hd rest) \<Longrightarrow>
     title_case sep E (p @ rest) = capitalize_word E p @ title_case sep E rest"
proof -
  assume p: "p \<noteq> []" "\<forall>u \<in> set p. \<not> sep u" and rest: "rest = [] \<or> sep (hd rest)"
  from p obtain u us where pus: "p = u # us"
    by (cases p) auto
  from p pus rest have "takeWhile (\<lambda>v. \<not> sep v) (us @ rest) = us"
    by (cases rest) (auto simp: takeWhile_append)
  moreover from p pus rest have "dropWhile (\<lambda>v. \<not> sep v) (us @ rest) = rest"
    by (cases rest) (auto simp: dropWhile_append)
  ultimately show ?thesis
    using p pus by simp
qed

lemma capitalized_scan:
  "ascii_case E \<Longrightarrow> \<forall>u \<in> set piece. u \<noteq> 0x20 \<Longrightarrow>
     join (js '' '') (map (capitalize_word E) (split_scan 0x20 piece text))
       = title_case (\<lambda>u. u = 0x20) E (piece @ text)"
proof (induction "text" arbitrary: piece)
  case Nil
  show ?case
  proof (cases "piece = []")
    case True
    with Nil show ?thesis by (simp add: capitalize_word_empty)
  next
    case False
    with Nil title_case_token [of piece "\<lambda>u. u = 0x20" "[]" E] show ?thesis
      by simp
  qed
next
  case (Cons u us)
  show ?case
  proof (cases "u = 0x20")
    case True
    have sp: "js '' '' = [0x20]"
      by (simp add: js_def)
    from Cons.IH [of "[]"] Cons.prems(1)
    have ih: "join (js '' '') (map (capitalize_word E) (split_scan 0x20 [] us))
                = title_case (\<lambda>u. u = 0x20) E us"
      by simp
    have "title_case (\<lambda>u. u = 0x20) E (piece @ u # us)
            = capitalize_word E piece @ u # title_case (\<lambda>u. u = 0x20) E us"
    proof (cases "piece = []")
      case True
      with \<open>u = 0x20\<close> Cons.prems(1) show ?thesis
        by (simp add: capitalize_word_empty)
    next
      case False
      with \<open>u = 0x20\<close> Cons.prems(2)
        title_case_token [of piece "\<lambda>u. u = 0x20" "u # us" E] show ?thesis
        by simp
    qed
    with True ih sp show ?thesis
      by (simp add: join_Cons split_scan_not_empty)
  next
    case False
    with Cons.IH [of "piece @ [u]"] Cons.prems show ?thesis
      by simp
  qed
qed

text \<open>
  C7, as stated: every whitespace-delimited token would be capitalized.  \<open>transformText\<close>
  splits at spaces only: a token that follows a TAB keeps its lower-case first letter.
\<close>

theorem capitalized_tab_counterexample:
  "is_whitespace 0x09 \<and>
   capitalized (transformText basic_latin (js ''go'' @ [0x09] @ js ''actions''))
     = js ''Go'' @ [0x09] @ js ''actions'' \<and>
   title_case is_whitespace basic_latin (js ''go'' @ [0x09] @ js ''actions'')
     = js ''Go'' @ [0x09] @ js ''Actions'' \<and>
   capitalized (transformText basic_latin (js ''go'' @ [0x09] @ js ''actions''))
     \<noteq> title_case is_whitespace basic_latin (js ''go'' @ [0x09] @ js ''actions'')"
  by code_simp

text \<open>
  C7, amended: the \<open>capitalized\<close> field is the text in title case over its
  space-delimited tokens (separator U+0020 only): the first code unit of every maximal
  run without a space is upper-cased, the rest of the run is lower-cased, the spaces
  stay; and the capitalized variant of \<open>go Actions go\<close> is \<open>Go Actions Go\<close>.  The
  built-ins are assumed to map ASCII strings letter by letter.
\<close>

theorem capitalized_by_spaces:
  assumes "ascii_case E"
  shows "capitalized (transformText E text) = title_case (\<lambda>u. u = 0x20) E text \<and>
         capitalized (transformText E (js ''go Actions go'')) = js ''Go Actions Go''"
proof
  from assms capitalized_scan [of E "[]" "text"]
  show "capitalized (transformText E text) = title_case (\<lambda>u. u = 0x20) E text"
    by (simp add: transformText_def split_on_def)
next
  have "toUpperCase E (js ''g'') = js ''G''" "toUpperCase E (js ''A'') = js ''A''"
       "toLowerCase E (js ''o'') = js ''o''" "toLowerCase E (js ''ctions'') = js ''ctions''"
    using assms
    by (simp_all add: ascii_case_upper ascii_case_lower is_ascii_def js_def upper_unit_def
          lower_unit_def)
  then show "capitalized (transformText E (js ''go Actions go'')) = js ''Go Actions Go''"
    by (simp add: transformText_def split_on_def capitalize_word_def charAt0_def slice1_def
          js_def)
qed

theorem capitalized_by_spaces_witness:
  "capitalized (transformText basic_latin (js ''hello  big world''))
     = title_case (\<lambda>u. u = 0x20) basic_latin (js ''hello  big world'') \<and>
   capitalized (transformText basic_latin (js ''go Actions go'')) = js ''Go Actions Go''"
  using capitalized_by_spaces [OF basic_latin_ascii_case, of "js ''hello  big world''"]
  by simp

subsection \<open>Words\<close>

lemma ws_tokens_token:
  assumes "p \<noteq> []" and "\<forall>u \<in> set p. \<not> is_whitespace u"
    and "rest = [] \<or> is_whitespace (hd rest)"
  shows "ws_tokens (p @ rest) = p # ws_tokens rest"
proof -
  from assms obtain u us where pus: "p = u # us"
    by (cases p) auto
  from assms pus have "takeWhile (\<lambda>v. \<not> is_whitespace v) (us @ rest) = us"
    by (cases rest) (auto simp: takeWhile_append)
  moreover from assms pus have "dropWhile (\<lambda>v. \<not> is_whitespace v) (us @ rest) = rest"
    by (cases rest) (auto simp: dropWhile_append)
  ultimately show ?thesis
    using assms pus by simp
qed

lemma split_ws_scan_tokens:
  "\<forall>u \<in> set piece. \<not> is_whitespace u \<Longrightarrow> (in_run \<longrightarrow> piece = []) \<Longrightarrow>
     filter (\<lambda>word. length word > 0) (split_ws_scan piece in_run s) = ws_tokens (piece @ s)"
proof (induction s arbitrary: piece in_run)
  case Nil
  then show ?case
    using ws_tokens_token [of piece "[]"] by (cases "piece = []") simp_all
next
  case (Cons u us)
  show ?case
  proof (cases "is_whitespace u")
    case True
    from Cons.IH [of "[]" True]
    have ih: "filter (\<lambda>word. length word > 0) (split_ws_scan [] True us) = ws_tokens us"
      by simp
    show ?thesis
    proof (cases "piece = []")
      case True
      with \<open>is_whitespace u\<close> ih show ?thesis by simp
    next
      case False
      with Cons.prems have "\<not> in_run" by simp
      with False \<open>is_whitespace u\<close> ih Cons.prems ws_tokens_token [of piece "u # us"]
      show ?thesis by simp
    qed
  next
    case False
    with Cons.IH [of "piece @ [u]" False] Cons.prems show ?thesis
      by simp
  qed
qed

lemma words_of_tokens: "words_of s = ws_tokens s"
  using split_ws_scan_tokens [of "[]" False s] by (simp add: words_of_def split_ws_def)

lemma card_classes:
  "card (A // {(a, b). f a = f b}) = card (f ` A)"
proof -
  let ?g = "\<lambda>v. {b. v = f b}"
  have "A // {(a, b). f a = f b} = ?g ` (f ` A)"
    by (auto simp: quotient_def Image_def)
  moreover have "inj_on ?g (f ` A)"
    by (rule inj_onI) auto
  ultimately show ?thesis
    by (simp add: card_image)
qed

text \<open>
  C8: \<open>uniqueWords\<close> is the number of distinct whitespace-delimited non-empty words of
  the text under case-insensitive comparison, that is the number of classes of its
  tokens with the same lower case; for \<open>The quick quick fox\<close> it is 3 (the built-in
  \<open>toLowerCase\<close> being assumed to map ASCII strings letter by letter).
\<close>

theorem uniqueWords_counts_classes:
  "uniqueWords (analyzeText E text) = distinct_ignoring_case E (ws_tokens text) \<and>
   (ascii_case E \<longrightarrow> uniqueWords (analyzeText E (js ''The quick quick fox'')) = 3)"
proof (intro conjI impI)
  have "length (remdups (map (toLowerCase E) (ws_tokens text)))
          = card (toLowerCase E ` set (ws_tokens text))"
    by (simp add: length_remdups_card_conv)
  then show "uniqueWords (analyzeText E text) = distinct_ignoring_case E (ws_tokens text)"
    by (simp add: analyzeText_def Let_def words_of_tokens distinct_ignoring_case_def
          same_ignoring_case_def card_classes)
next
  assume E: "ascii_case E"
  have w: "words_of (js ''The quick quick fox'')
             = [js ''The'', js ''quick'', js ''quick'', js ''fox'']"
    by code_simp
  from E have "toLowerCase E (js ''The'') = js ''the''"
      "toLowerCase E (js ''quick'') = js ''quick''" "toLowerCase E (js ''fox'') = js ''fox''"
    by (simp_all add: ascii_case_lower is_ascii_def js_def lower_unit_def)
  with w show "uniqueWords (analyzeText E (js ''The quick quick fox'')) = 3"
    by (simp add: analyzeText_def Let_def js_def)
qed

theorem uniqueWords_counts_classes_witness:
  "uniqueWords (analyzeText basic_latin (js ''a A b''))
     = distinct_ignoring_case basic_latin (ws_tokens (js ''a A b'')) \<and>
   uniqueWords (analyzeText basic_latin (js ''The quick quick fox'')) = 3"
  using uniqueWords_counts_classes [of basic_latin "js ''a A b''"] basic_latin_ascii_case
  by simp

subsection \<open>The average word length\<close>

lemma binade_scaled: "0 < a \<Longrightarrow> 2 ^ 52 * b \<le> a * 2 ^ binade a b k"
proof (induction a b k rule: binade.induct)
  case (1 a b k)
  show ?case
  proof (cases "2 ^ 52 * b \<le> a * 2 ^ k")
    case True
    then show ?thesis by (subst binade.simps) simp
  next
    case False
    with 1 have "2 ^ 52 * b \<le> a * 2 ^ binade a b (Suc k)"
      by simp
    with False "1.prems" show ?thesis by (subst binade.simps) simp
  qed
qed

lemma round_half_even_error:
  assumes "0 < d"
  shows "\<bar>of_nat (round_half_even n d) - (of_nat n :: rat) / of_nat d\<bar> \<le> 1 / 2"
proof -
  define q where "q = n div d"
  define r where "r = n mod d"
  define \<rho> :: rat where "\<rho> = of_nat r / of_nat d"
  have "n = q * d + r"
    by (simp add: q_def r_def)
  then have "(of_nat n :: rat) = of_nat q * of_nat d + of_nat r"
    by (metis of_nat_add of_nat_mult)
  with assms have quot: "(of_nat n :: rat) / of_nat d = of_nat q + \<rho>"
    by (simp add: \<rho>_def field_simps)
  have "r < d"
    using assms by (simp add: r_def)
  then have \<rho>: "0 \<le> \<rho>" "\<rho> < 1"
    using assms by (simp_all add: \<rho>_def)
  have low: "2 * r < d \<Longrightarrow> \<rho> < 1 / 2"
  proof -
    assume "2 * r < d"
    then have "(of_nat (2 * r) :: rat) < of_nat d"
      by (simp only: of_nat_less_iff)
    with assms show ?thesis
      by (simp add: \<rho>_def field_simps)
  qed
  have high: "d < 2 * r \<Longrightarrow> 1 / 2 < \<rho>"
  proof -
    assume "d < 2 * r"
    then have "(of_nat d :: rat) < of_nat (2 * r)"
      by (simp only: of_nat_less_iff)
    with assms show ?thesis
      by (simp add: \<rho>_def field_simps)
  qed
  have tie: "\<not> 2 * r < d \<Longrightarrow> \<not> d < 2 * r \<Longrightarrow> \<rho> = 1 / 2"
  proof -
    assume "\<not> 2 * r < d" "\<not> d < 2 * r"
    then have "d = 2 * r" by simp
    then have "(of_nat d :: rat) = 2 * of_nat r"
      by simp
    with assms show ?thesis
      by (simp add: \<rho>_def field_simps)
  qed
  show ?thesis
    unfolding round_half_even_def Let_def quot q_def [symmetric] r_def [symmetric]
    using \<rho> low high tie by auto
qed

lemma scaled_difference:
  fixes m :: rat
  shows "m / 2 ^ k - of_nat a / of_nat b = (m - of_nat a * 2 ^ k / of_nat b) / 2 ^ k"
  by (simp add: diff_divide_distrib)

lemma half_ulp_bound:
  assumes "0 < (b::nat)" and "(2 ^ 52 * of_nat b :: rat) \<le> of_nat a * 2 ^ k"
  shows "(1 :: rat) / (2 * 2 ^ k) \<le> of_nat a / (2 ^ 53 * of_nat b)"
proof -
  have "(2 ^ 53 * of_nat b :: rat) \<le> of_nat a * (2 * 2 ^ k)"
    using assms(2) by simp
  moreover have "(0 :: rat) < 2 ^ 53 * of_nat b" "(0::rat) < 2 * 2 ^ k"
    using assms by simp_all
  ultimately show ?thesis
    by (simp add: pos_divide_le_eq pos_le_divide_eq mult.commute)
qed

lemma number_div_error:
  assumes "0 < a" and "0 < b"
  shows "\<bar>number_div a b - of_nat a / of_nat b\<bar> \<le> of_nat a / (2 ^ 53 * of_nat b)"
proof -
  define k where "k = binade a b 0"
  define m :: rat where "m = of_nat (round_half_even (a * 2 ^ k) b)"
  have x: "number_div a b = m / 2 ^ k"
    unfolding number_div_def Let_def k_def m_def by (rule refl)
  from assms have "\<bar>m - of_nat (a * 2 ^ k) / of_nat b\<bar> \<le> 1 / 2"
    unfolding m_def by (intro round_half_even_error)
  then have "\<bar>m - of_nat a * 2 ^ k / of_nat b\<bar> \<le> 1 / 2"
    by simp
  then have "\<bar>m - of_nat a * 2 ^ k / of_nat b\<bar> / 2 ^ k \<le> (1 / 2) / 2 ^ k"
    by (intro divide_right_mono) simp_all
  then have "\<bar>(m - of_nat a * 2 ^ k / of_nat b) / 2 ^ k\<bar> \<le> 1 / (2 * 2 ^ k)"
    by (simp add: abs_divide)
  then have err: "\<bar>number_div a b - of_nat a / of_nat b\<bar> \<le> 1 / (2 * 2 ^ k)"
    by (simp only: x scaled_difference)
  from assms have "2 ^ 52 * b \<le> a * 2 ^ k"
    unfolding k_def by (intro binade_scaled)
  then have "(of_nat (2 ^ 52 * b) :: rat) \<le> of_nat (a * 2 ^ k)"
    by (simp only: of_nat_le_iff)
  then have "(2 ^ 52 * of_nat b :: rat) \<le> of_nat a * 2 ^ k"
    by simp
  with assms have "(1 :: rat) / (2 * 2 ^ k) \<le> of_nat a / (2 ^ 53 * of_nat b)"
    by (intro half_ulp_bound)
  with err show ?thesis
    by linarith
qed

lemma number_div_zero: "number_div 0 b = 0"
  by (simp add: number_div_def binade.simps [of 0] round_half_even_def)

lemma number_div_error_all:
  assumes "0 < b"
  shows "\<bar>number_div a b - of_nat a / of_nat b\<bar> \<le> of_nat a / (2 ^ 53 * of_nat b)"
proof (cases "a = 0")
  case True
  then show ?thesis by (simp add: number_div_zero)
next
  case False
  with assms show ?thesis by (intro number_div_error) simp_all
qed

lemma number_div_nonneg: "0 \<le> number_div a b"
  by (simp add: number_div_def Let_def)

lemma nearest_hundredth:
  fixes x :: rat
  assumes b: "0 < b" and small: "200 * a < 2 ^ 53" and x0: "0 \<le> x"
    and err: "\<bar>x - of_nat a / of_nat b\<bar> \<le> of_nat a / (2 ^ 53 * of_nat b)"
  shows "\<bar>(of_nat (nat \<lfloor>x * 10 ^ 2 + 1 / 2\<rfloor>) :: rat) / 100 - of_nat a / of_nat b\<bar> \<le> 1 / 200"
proof -
  define n where "n = nat \<lfloor>x * 10 ^ 2 + 1 / 2\<rfloor>"
  define A :: rat where "A = of_nat a"
  define B :: rat where "B = of_nat b"
  define N :: rat where "N = of_nat n"
  define xB where "xB = x * B"
  define NB where "NB = N * B"
  have Bpos: "0 < B"
    using b by (simp add: B_def)
  have "0 \<le> \<lfloor>x * 10 ^ 2 + 1 / 2\<rfloor>"
    using x0 by simp
  then have "N = of_int \<lfloor>x * 10 ^ 2 + 1 / 2\<rfloor>"
    by (simp add: N_def n_def)
  then have h1: "N \<le> 100 * x + 1 / 2" and h2: "100 * x + 1 / 2 < N + 1"
    by (simp_all add: mult.commute) linarith+
  from h1 Bpos have "N * B \<le> (100 * x + 1 / 2) * B"
    by (intro mult_right_mono) simp_all
  then have H1: "NB \<le> 100 * xB + B / 2"
    by (simp add: NB_def xB_def algebra_simps)
  from h2 Bpos have "(100 * x + 1 / 2) * B < (N + 1) * B"
    by (intro mult_strict_right_mono) simp_all
  then have H2: "100 * xB + B / 2 < NB + B"
    by (simp add: NB_def xB_def algebra_simps)
  have "(of_nat (200 * a) :: rat) < of_nat (2 ^ 53)"
    using small by (simp only: of_nat_less_iff)
  then have A_small: "A / 2 ^ 53 < 1 / 200"
    by (simp add: A_def)
  from err have "\<bar>x - A / B\<bar> * B \<le> A / (2 ^ 53 * B) * B"
    using Bpos by (intro mult_right_mono) (simp_all add: A_def B_def)
  moreover have "\<bar>x - A / B\<bar> * B = \<bar>xB - A\<bar>"
  proof -
    have "\<bar>x - A / B\<bar> * B = \<bar>(x - A / B) * B\<bar>"
      using Bpos by (simp add: abs_mult)
    also have "(x - A / B) * B = xB - A"
      using Bpos by (simp add: xB_def algebra_simps)
    finally show ?thesis .
  qed
  moreover have "A / (2 ^ 53 * B) * B = A / 2 ^ 53"
    using Bpos by simp
  ultimately have close: "\<bar>xB - A\<bar> < 1 / 200"
    using A_small by linarith
  have upper: "2 * NB - 200 * A \<le> B"
  proof (rule ccontr)
    assume "\<not> 2 * NB - 200 * A \<le> B"
    then have "(of_nat (200 * a + b) :: rat) < of_nat (2 * n * b)"
      by (simp add: NB_def N_def A_def B_def)
    then have "200 * a + b < 2 * n * b"
      by (simp only: of_nat_less_iff)
    then have "200 * a + b + 1 \<le> 2 * n * b"
      by simp
    then have "(of_nat (200 * a + b + 1) :: rat) \<le> of_nat (2 * n * b)"
      by (simp only: of_nat_le_iff)
    then have "200 * A + B + 1 \<le> 2 * NB"
      by (simp add: NB_def N_def A_def B_def)
    with H1 close show False
      by linarith
  qed
  have lower: "200 * A - 2 * NB \<le> B"
  proof (rule ccontr)
    assume "\<not> 200 * A - 2 * NB \<le> B"
    then have "(of_nat (2 * n * b + b) :: rat) < of_nat (200 * a)"
      by (simp add: NB_def N_def A_def B_def)
    then have "2 * n * b + b < 200 * a"
      by (simp only: of_nat_less_iff)
    then have "2 * n * b + b + 1 \<le> 200 * a"
      by simp
    then have "(of_nat (2 * n * b + b + 1) :: rat) \<le> of_nat (200 * a)"
      by (simp only: of_nat_le_iff)
    then have "2 * NB + B + 1 \<le> 200 * A"
      by (simp add: NB_def N_def A_def B_def)
    with H2 close show False
      by linarith
  qed
  have "\<bar>N / 100 - A / B\<bar> * (200 * B) = \<bar>2 * NB - 200 * A\<bar>"
  proof -
    have "\<bar>N / 100 - A / B\<bar> * (200 * B) = \<bar>(N / 100 - A / B) * (200 * B)\<bar>"
      using Bpos by (simp add: abs_mult)
    also have "(N / 100 - A / B) * (200 * B) = 2 * NB - 200 * A"
      using Bpos by (simp add: NB_def algebra_simps)
    finally show ?thesis .
  qed
  with upper lower have "\<bar>N / 100 - A / B\<bar> * (200 * B) \<le> B"
    by linarith
  then have "\<bar>N / 100 - A / B\<bar> \<le> B / (200 * B)"
    using Bpos by (simp add: pos_le_divide_eq)
  then show ?thesis
    using Bpos by (simp add: N_def n_def A_def B_def)
qed

lemma digits_small: "n < 10 \<Longrightarrow> digits n = [n]"
  by (subst digits.simps) simp

lemma digits_step: "10 \<le> n \<Longrightarrow> digits n = digits (n div 10) @ [n mod 10]"
  by (subst digits.simps) simp

lemma digits_hundreds:
  assumes "100 \<le> n"
  shows "digits n = digits (n div 100) @ [n div 10 mod 10, n mod 10]"
proof -
  from assms have "10 \<le> n" and "10 \<le> n div 10"
    by simp_all
  moreover have "n div 10 div 10 = n div 100"
    by (simp add: div_mult2_eq [symmetric])
  ultimately show ?thesis
    by (simp add: digits_step [of n] digits_step [of "n div 10"])
qed

lemma digits_not_empty: "digits n \<noteq> []"
  by (subst digits.simps) simp

lemma toFixed_two_decimals: "toFixed 2 x = two_decimals (nat \<lfloor>x * 10 ^ 2 + 1 / 2\<rfloor>)"
proof -
  define n where "n = nat \<lfloor>x * 10 ^ 2 + 1 / 2\<rfloor>"
  consider "n < 10" | "10 \<le> n" "n < 100" | "100 \<le> n"
    by linarith
  then have "(let m = decimal n; m = replicate (3 - length m) 0x30 @ m; k = length m
              in take (k - 2) m @ [0x2E] @ drop (k - 2) m) = two_decimals n"
  proof cases
    case 1
    then show ?thesis
      by (simp add: two_decimals_def decimal_def digits_small)
  next
    case 2
    then have "digits n = [n div 10, n mod 10]" "n div 100 = 0" "n div 10 < 10"
      by (simp_all add: digits_step digits_small)
    then show ?thesis
      by (simp add: two_decimals_def decimal_def digits_small)
  next
    case 3
    have "digits (n div 100) \<noteq> []"
      by (rule digits_not_empty)
    then have "3 - (length (digits (n div 100)) + 2) = 0"
      by (cases "digits (n div 100)") simp_all
    with 3 show ?thesis
      by (simp add: two_decimals_def decimal_def digits_hundreds)
  qed
  then show ?thesis
    by (simp add: toFixed_def n_def Let_def numeral_2_eq_2 numeral_3_eq_3)
qed

lemma foldl_lengths:
  "foldl (\<lambda>sum word. sum + length word) a ws = a + sum_list (map length ws)"
  by (induction ws arbitrary: a) simp_all

lemma ws_tokens_lengths: "sum_list (map length (ws_tokens s)) \<le> length s"
proof (induction s rule: ws_tokens.induct)
  case 1
  then show ?case by simp
next
  case (2 u us)
  have "length (takeWhile (\<lambda>v. \<not> is_whitespace v) us)
          + length (dropWhile (\<lambda>v. \<not> is_whitespace v) us) = length us"
    by (metis length_append takeWhile_dropWhile_id)
  with 2 show ?case
    by (cases "is_whitespace u") simp_all
qed

text \<open>
  C9: \<open>avgWordLength\<close> is the number 0 when the text has no word.  When it has words,
  it is the arithmetic mean of the lengths of the whitespace-delimited non-empty words
  rounded to 2 decimal places: the string of a decimal numeral \<open>n / 100\<close> with two
  fraction digits that lies within half a hundredth of the mean.  The bound on the
  length, about \<open>4.5 * 10^13\<close> code units, keeps the rounding error of the binary64
  quotient below the distance between the mean and the nearest tie; no engine holds a
  string that long.
\<close>

theorem avgWordLength_rounded:
  "(wordCount (analyzeText E text) = 0 \<longrightarrow> avgWordLength (analyzeText E text) = JNumber 0) \<and>
   (0 < wordCount (analyzeText E text) \<and> 200 * length text < 2 ^ 53 \<longrightarrow>
      (\<exists>n. avgWordLength (analyzeText E text) = JString (two_decimals n)
         \<and> \<bar>of_nat n / 100 - mean_length (ws_tokens text)\<bar> \<le> 1 / 200))"
proof (intro conjI impI)
  assume "wordCount (analyzeText E text) = 0"
  then show "avgWordLength (analyzeText E text) = JNumber 0"
    by (simp add: analyzeText_def Let_def)
next
  define ws where "ws = ws_tokens text"
  define S where "S = sum_list (map length ws)"
  define x where "x = number_div S (length ws)"
  define n where "n = nat \<lfloor>x * 10 ^ 2 + 1 / 2\<rfloor>"
  assume "0 < wordCount (analyzeText E text) \<and> 200 * length text < 2 ^ 53"
  then have L: "0 < length ws" and len: "200 * length text < 2 ^ 53"
    by (simp_all add: analyzeText_def Let_def words_of_tokens ws_def)
  have "S \<le> length text"
    unfolding S_def ws_def by (rule ws_tokens_lengths)
  with len have small: "200 * S < 2 ^ 53"
    by simp
  from L have avg: "avgWordLength (analyzeText E text) = JString (two_decimals n)"
    by (simp add: analyzeText_def Let_def words_of_tokens foldl_lengths toFixed_two_decimals
          ws_def S_def x_def n_def)
  have "\<bar>x - of_nat S / of_nat (length ws)\<bar> \<le> of_nat S / (2 ^ 53 * of_nat (length ws))"
    unfolding x_def using L by (rule number_div_error_all)
  with L small have "\<bar>(of_nat n :: rat) / 100 - of_nat S / of_nat (length ws)\<bar> \<le> 1 / 200"
    unfolding n_def by (intro nearest_hundredth) (simp_all add: x_def number_div_nonneg)
  then have "\<bar>of_nat n / 100 - mean_length (ws_tokens text)\<bar> \<le> 1 / 200"
    by (simp add: mean_length_def ws_def S_def)
  with avg show "\<exists>n. avgWordLength (analyzeText E text) = JString (two_decimals n)
         \<and> \<bar>of_nat n / 100 - mean_length (ws_tokens text)\<bar> \<le> 1 / 200"
    by blast
qed

theorem avgWordLength_rounded_witness:
  "avgWordLength (analyzeText basic_latin []) = JNumber 0 \<and>
   (\<exists>n. avgWordLength (analyzeText basic_latin (js ''ab cde'')) = JString (two_decimals n)
      \<and> \<bar>of_nat n / 100 - mean_length (ws_tokens (js ''ab cde''))\<bar> \<le> 1 / 200)"
proof -
  have none: "wordCount (analyzeText basic_latin []) = 0"
    by (simp add: analyzeText_def words_of_def split_ws_def)
  have some: "0 < wordCount (analyzeText basic_latin (js ''ab cde''))
                \<and> 200 * length (js ''ab cde'') < 2 ^ 53"
    by (simp add: analyzeText_def words_of_def split_ws_def js_def is_whitespace_def)
  from avgWordLength_rounded [of basic_latin "[]"] none
    avgWordLength_rounded [of basic_latin "js ''ab cde''"] some
  show ?thesis
    by blast
qed

end
